theory Spec2Isabelle
  imports Complex_Main
begin

section \<open>The SIR integrator of simulation.py\<close>

text \<open>
  The embedding follows \<^verbatim>\<open>run_sir_model\<close> of \<^verbatim>\<open>src/simulation.py\<close> statement by
  statement. Numbers are modelled in exact real arithmetic: a numpy \<^verbatim>\<open>float64\<close> is read
  as a \<^typ>\<open>real\<close>, so rounding, overflow, \<^verbatim>\<open>inf\<close> and \<^verbatim>\<open>nan\<close> are outside the model.
  In particular the model is meaningful for \<open>N \<noteq> 0\<close> only: numpy divides by a zero
  population without raising and yields \<^verbatim>\<open>inf\<close>/\<^verbatim>\<open>nan\<close>, which no real number stands for.
  The number of steps is a Python \<^verbatim>\<open>int\<close>, an optional argument is an \<open>option\<close>
  (\<open>None\<close> is Python's \<^verbatim>\<open>None\<close>), and a raised exception is the left summand of the
  result.
\<close>

datatype py_error = ZeroDivisionError | ValueError | IndexError | TypeError

subsection \<open>Python and numpy primitives used by the function\<close>

text \<open>\<^verbatim>\<open>total_time / time_steps\<close> on Python numbers: a zero divisor raises.\<close>

definition py_truediv :: "real \<Rightarrow> int \<Rightarrow> py_error + real" where
  "py_truediv a b = (if b = 0 then Inl ZeroDivisionError else Inr (a / real_of_int b))"

text \<open>
  \<^verbatim>\<open>np.linspace(start, stop, num)\<close> with the default \<^verbatim>\<open>endpoint=True\<close>: a negative
  \<^verbatim>\<open>num\<close> raises \<^verbatim>\<open>ValueError\<close>; otherwise the samples are
  \<^verbatim>\<open>arange(num) * ((stop - start) / (num - 1)) + start\<close>, and for \<^verbatim>\<open>num > 1\<close> the last
  sample is overwritten with \<^verbatim>\<open>stop\<close>. (For \<^verbatim>\<open>num = 1\<close> numpy yields \<^verbatim>\<open>[start]\<close>, which is
  what the formula gives here, the only index being 0.)
\<close>

definition np_linspace :: "real \<Rightarrow> real \<Rightarrow> int \<Rightarrow> py_error + real list" where
  "np_linspace start stop num =
     (if num < 0 then Inl ValueError
      else
        let n = nat num;
            step = (stop - start) / real (n - 1);
            y = map (\<lambda>k. real k * step + start) [0..<n]
        in Inr (if 1 < n then y[n - 1 := stop] else y))"

text \<open>\<^verbatim>\<open>np.zeros(n)\<close>: negative dimensions raise \<^verbatim>\<open>ValueError\<close>.\<close>

definition np_zeros :: "int \<Rightarrow> py_error + real list" where
  "np_zeros n = (if n < 0 then Inl ValueError else Inr (replicate (nat n) 0))"

text \<open>\<^verbatim>\<open>a[i] = v\<close> on an array, for an index \<open>i \<ge> 0\<close>: out of range raises.\<close>

definition np_setitem :: "real list \<Rightarrow> nat \<Rightarrow> real \<Rightarrow> py_error + real list" where
  "np_setitem a i v = (if i < length a then Inr (a[i := v]) else Inl IndexError)"

text \<open>\<^verbatim>\<open>range(n)\<close>: empty for \<open>n \<le> 0\<close>.\<close>

definition py_range :: "int \<Rightarrow> nat list" where
  "py_range n = [0..<nat n]"

subsection \<open>One iteration of the loop (lines 100 to 130)\<close>

text \<open>
  Lines 102 to 104: the value of \<^verbatim>\<open>current_beta\<close> at step \<open>i\<close>. The time axis is read
  only when an intervention day is given (\<^verbatim>\<open>and\<close> short-circuits); the result is \<open>None\<close>
  when the intervention applies and \<^verbatim>\<open>beta_pos_intervencao\<close> was not passed.
\<close>

definition current_beta ::
  "real \<Rightarrow> real option \<Rightarrow> real option \<Rightarrow> real list \<Rightarrow> nat \<Rightarrow> py_error + real option" where
  "current_beta beta intervencao_dia beta_pos_intervencao t i =
     (case intervencao_dia of
        None \<Rightarrow> Inr (Some beta)
      | Some d \<Rightarrow>
          if i < length t
          then Inr (if t ! i \<ge> d then beta_pos_intervencao else Some beta)
          else Inl IndexError)"

text \<open>
  Lines 106 to 130 on the three arrays, with the assignments in the order of the source:
  the Euler update writes index \<open>i + 1\<close>, the clamps read it back and overwrite it, and the
  normalisation reads it again. \<^verbatim>\<open>-current_beta\<close> raises \<^verbatim>\<open>TypeError\<close> on \<^verbatim>\<open>None\<close>; an
  index outside an array raises \<^verbatim>\<open>IndexError\<close>.
\<close>

definition loop_body ::
  "real \<Rightarrow> real \<Rightarrow> real \<Rightarrow> real \<Rightarrow> real option \<Rightarrow> real option \<Rightarrow> real list \<Rightarrow> nat \<Rightarrow>
   real list \<times> real list \<times> real list \<Rightarrow> py_error + real list \<times> real list \<times> real list" where
  "loop_body N beta gamma dt intervencao_dia beta_pos_intervencao t i st =
     (case st of (S, I, R) \<Rightarrow>
      (case current_beta beta intervencao_dia beta_pos_intervencao t i of
         Inl e \<Rightarrow> Inl e
       | Inr None \<Rightarrow> Inl TypeError
       | Inr (Some cb) \<Rightarrow>
           if \<not> (Suc i < length S \<and> Suc i < length I \<and> Suc i < length R) then Inl IndexError
           else
             let d_S = - cb * S ! i * I ! i / N;
                 d_I = (cb * S ! i * I ! i / N) - gamma * I ! i;
                 d_R = gamma * I ! i;
                 S = S[Suc i := S ! i + d_S * dt];
                 I = I[Suc i := I ! i + d_I * dt];
                 R = R[Suc i := R ! i + d_R * dt];
                 S = S[Suc i := max 0 (S ! Suc i)];
                 I = I[Suc i := max 0 (I ! Suc i)];
                 R = R[Suc i := min N (R ! Suc i)];
                 total = S ! Suc i + I ! Suc i + R ! Suc i
             in if total \<noteq> N \<and> total > 0
                then
                  let fator = N / total;
                      S = S[Suc i := S ! Suc i * fator];
                      I = I[Suc i := I ! Suc i * fator];
                      R = R[Suc i := R ! Suc i * fator]
                  in Inr (S, I, R)
                else Inr (S, I, R)))"

text \<open>The \<^verbatim>\<open>for\<close> loop over the indices; an exception ends it.\<close>

fun sir_loop ::
  "real \<Rightarrow> real \<Rightarrow> real \<Rightarrow> real \<Rightarrow> real option \<Rightarrow> real option \<Rightarrow> real list \<Rightarrow> nat list \<Rightarrow>
   real list \<times> real list \<times> real list \<Rightarrow> py_error + real list \<times> real list \<times> real list" where
  "sir_loop N beta gamma dt intervencao_dia beta_pos_intervencao t [] st = Inr st"
| "sir_loop N beta gamma dt intervencao_dia beta_pos_intervencao t (i # is) st =
     (case loop_body N beta gamma dt intervencao_dia beta_pos_intervencao t i st of
        Inl e \<Rightarrow> Inl e
      | Inr st' \<Rightarrow> sir_loop N beta gamma dt intervencao_dia beta_pos_intervencao t is st')"

subsection \<open>The function\<close>

definition run_sir_model ::
  "real \<Rightarrow> real \<Rightarrow> real \<Rightarrow> real \<Rightarrow> real \<Rightarrow> real \<Rightarrow> int \<Rightarrow> real option \<Rightarrow> real option \<Rightarrow>
   py_error + real list \<times> real list \<times> real list \<times> real list" where
  "run_sir_model N I0 R0_param beta gamma total_time time_steps intervencao_dia
       beta_pos_intervencao =
     (case py_truediv total_time time_steps of Inl e \<Rightarrow> Inl e | Inr dt \<Rightarrow>
      case np_linspace 0 total_time (time_steps + 1) of Inl e \<Rightarrow> Inl e | Inr t \<Rightarrow>
      case np_zeros (time_steps + 1) of Inl e \<Rightarrow> Inl e | Inr I \<Rightarrow>
      case np_zeros (time_steps + 1) of Inl e \<Rightarrow> Inl e | Inr R \<Rightarrow>
      case np_zeros (time_steps + 1) of Inl e \<Rightarrow> Inl e | Inr S \<Rightarrow>
      case np_setitem I 0 I0 of Inl e \<Rightarrow> Inl e | Inr I \<Rightarrow>
      case np_setitem R 0 R0_param of Inl e \<Rightarrow> Inl e | Inr R \<Rightarrow>
      case np_setitem S 0 (N - I0 - R0_param) of Inl e \<Rightarrow> Inl e | Inr S \<Rightarrow>
      case sir_loop N beta gamma dt intervencao_dia beta_pos_intervencao t
             (py_range time_steps) (S, I, R) of
        Inl e \<Rightarrow> Inl e
      | Inr (S, I, R) \<Rightarrow> Inr (t, S, I, R))"

subsection \<open>The values written by one iteration\<close>

text \<open>
  What one iteration leaves at index \<open>i + 1\<close> of the three arrays, as a function of the
  values at index \<open>i\<close> and of the rate \<open>cb\<close> it ran with: the Euler update, the clamps and
  the normalisation on scalars. It is not part of the model of the code; lemmas
  \<open>loop_body_values\<close> and \<open>loop_body_Inr\<close> prove that the array code above computes it.
\<close>

definition step_values ::
  "real \<Rightarrow> real \<Rightarrow> real \<Rightarrow> real \<Rightarrow> real \<times> real \<times> real \<Rightarrow> real \<times> real \<times> real" where
  "step_values N gamma dt cb v =
     (case v of (s, i, r) \<Rightarrow>
        let s1 = max 0 (s + (- cb * s * i / N) * dt);
            i1 = max 0 (i + ((cb * s * i / N) - gamma * i) * dt);
            r1 = min N (r + (gamma * i) * dt);
            total = s1 + i1 + r1
        in if total \<noteq> N \<and> total > 0
           then (s1 * (N / total), i1 * (N / total), r1 * (N / total))
           else (s1, i1, r1))"

section \<open>The loop body and the loop\<close>

lemma loop_body_values:
  assumes "current_beta beta intervencao_dia beta_pos_intervencao t i = Inr (Some cb)"
    and "Suc i < length S" "Suc i < length I" "Suc i < length R"
    and "step_values N gamma dt cb (S ! i, I ! i, R ! i) = (s', i', r')"
  shows "loop_body N beta gamma dt intervencao_dia beta_pos_intervencao t i (S, I, R) =
           Inr (S[Suc i := s'], I[Suc i := i'], R[Suc i := r'])"
  using assms by (auto simp: loop_body_def step_values_def Let_def split: if_splits)

lemma loop_body_Inr:
  assumes "loop_body N beta gamma dt intervencao_dia beta_pos_intervencao t i (S, I, R) = Inr st'"
  shows "\<exists>cb. current_beta beta intervencao_dia beta_pos_intervencao t i = Inr (Some cb) \<and>
           Suc i < length S \<and> Suc i < length I \<and> Suc i < length R \<and>
           st' = (S[Suc i := fst (step_values N gamma dt cb (S ! i, I ! i, R ! i))],
                  I[Suc i := fst (snd (step_values N gamma dt cb (S ! i, I ! i, R ! i)))],
                  R[Suc i := snd (snd (step_values N gamma dt cb (S ! i, I ! i, R ! i)))])"
proof (cases "current_beta beta intervencao_dia beta_pos_intervencao t i")
  case (Inl e)
  with assms show ?thesis by (simp add: loop_body_def)
next
  case (Inr rate)
  show ?thesis
  proof (cases rate)
    case None
    with Inr assms show ?thesis by (simp add: loop_body_def)
  next
    case (Some cb)
    with Inr have cb: "current_beta beta intervencao_dia beta_pos_intervencao t i = Inr (Some cb)"
      by simp
    have len: "Suc i < length S \<and> Suc i < length I \<and> Suc i < length R"
      using assms cb by (simp add: loop_body_def split: if_splits)
    obtain s' i' r' where sv: "step_values N gamma dt cb (S ! i, I ! i, R ! i) = (s', i', r')"
      by (cases "step_values N gamma dt cb (S ! i, I ! i, R ! i)") auto
    from loop_body_values[OF cb _ _ _ sv] len assms
    have "st' = (S[Suc i := s'], I[Suc i := i'], R[Suc i := r'])" by simp
    with cb len sv show ?thesis by simp
  qed
qed

lemma sir_loop_append:
  "sir_loop N beta gamma dt d b t (xs @ ys) st =
     (case sir_loop N beta gamma dt d b t xs st of
        Inl e \<Rightarrow> Inl e
      | Inr st' \<Rightarrow> sir_loop N beta gamma dt d b t ys st')"
  by (induction xs arbitrary: st) (auto split: sum.splits)

lemma sir_loop_upt:
  assumes "sir_loop N beta gamma dt d b t [0..<k] (S0, I0, R0) = Inr (S, I, R)"
  shows "length S = length S0 \<and> length I = length I0 \<and> length R = length R0 \<and>
         S ! 0 = S0 ! 0 \<and> I ! 0 = I0 ! 0 \<and> R ! 0 = R0 ! 0 \<and>
         (\<forall>j>k. S ! j = S0 ! j \<and> I ! j = I0 ! j \<and> R ! j = R0 ! j) \<and>
         (\<forall>i<k. \<exists>cb. current_beta beta d b t i = Inr (Some cb) \<and>
            Suc i < length S0 \<and> Suc i < length I0 \<and> Suc i < length R0 \<and>
            (S ! Suc i, I ! Suc i, R ! Suc i) =
              step_values N gamma dt cb (S ! i, I ! i, R ! i))"
  using assms
proof (induction k arbitrary: S I R)
  case 0
  then show ?case by simp
next
  case (Suc k)
  from Suc.prems obtain S1 I1 R1 where
    pre: "sir_loop N beta gamma dt d b t [0..<k] (S0, I0, R0) = Inr (S1, I1, R1)" and
    body: "loop_body N beta gamma dt d b t k (S1, I1, R1) = Inr (S, I, R)"
    by (auto simp: sir_loop_append split: sum.splits)
  note IH = Suc.IH[OF pre]
  from loop_body_Inr[OF body] obtain cb where
    cb: "current_beta beta d b t k = Inr (Some cb)" and
    len: "Suc k < length S1" "Suc k < length I1" "Suc k < length R1" and
    S: "S = S1[Suc k := fst (step_values N gamma dt cb (S1 ! k, I1 ! k, R1 ! k))]" and
    I: "I = I1[Suc k := fst (snd (step_values N gamma dt cb (S1 ! k, I1 ! k, R1 ! k)))]" and
    R: "R = R1[Suc k := snd (snd (step_values N gamma dt cb (S1 ! k, I1 ! k, R1 ! k)))]"
    by auto
  have lens: "length S = length S0 \<and> length I = length I0 \<and> length R = length R0"
    using IH S I R by simp
  have zero: "S ! 0 = S0 ! 0 \<and> I ! 0 = I0 ! 0 \<and> R ! 0 = R0 ! 0"
    using IH S I R by simp
  have above: "\<forall>j>Suc k. S ! j = S0 ! j \<and> I ! j = I0 ! j \<and> R ! j = R0 ! j"
    using IH S I R by simp
  have steps: "\<exists>cb. current_beta beta d b t i = Inr (Some cb) \<and>
            Suc i < length S0 \<and> Suc i < length I0 \<and> Suc i < length R0 \<and>
            (S ! Suc i, I ! Suc i, R ! Suc i) =
              step_values N gamma dt cb (S ! i, I ! i, R ! i)" if "i < Suc k" for i
  proof (cases "i = k")
    case True
    have "S ! Suc k = fst (step_values N gamma dt cb (S1 ! k, I1 ! k, R1 ! k))"
      "I ! Suc k = fst (snd (step_values N gamma dt cb (S1 ! k, I1 ! k, R1 ! k)))"
      "R ! Suc k = snd (snd (step_values N gamma dt cb (S1 ! k, I1 ! k, R1 ! k)))"
      using S I R len by simp_all
    moreover have "S ! k = S1 ! k" "I ! k = I1 ! k" "R ! k = R1 ! k"
      using S I R by simp_all
    ultimately show ?thesis using True cb len IH by auto
  next
    case False
    with that have ik: "i < k" by simp
    then have "S ! i = S1 ! i" "I ! i = I1 ! i" "R ! i = R1 ! i"
      "S ! Suc i = S1 ! Suc i" "I ! Suc i = I1 ! Suc i" "R ! Suc i = R1 ! Suc i"
      using S I R by simp_all
    with IH ik show ?thesis by auto
  qed
  from lens zero above steps show ?case by blast
qed

lemma sir_loop_returns:
  assumes "\<forall>i<k. \<exists>cb. current_beta beta d b t i = Inr (Some cb)"
    and "k < length S0" "k < length I0" "k < length R0"
  shows "\<exists>S I R. sir_loop N beta gamma dt d b t [0..<k] (S0, I0, R0) = Inr (S, I, R)"
  using assms
proof (induction k)
  case 0
  then show ?case by simp
next
  case (Suc k)
  then obtain S1 I1 R1 where
    pre: "sir_loop N beta gamma dt d b t [0..<k] (S0, I0, R0) = Inr (S1, I1, R1)"
    by auto
  from sir_loop_upt[OF pre] Suc.prems
  have len: "Suc k < length S1" "Suc k < length I1" "Suc k < length R1" by simp_all
  from Suc.prems obtain cb where cb: "current_beta beta d b t k = Inr (Some cb)" by auto
  obtain s' i' r' where sv: "step_values N gamma dt cb (S1 ! k, I1 ! k, R1 ! k) = (s', i', r')"
    by (cases "step_values N gamma dt cb (S1 ! k, I1 ! k, R1 ! k)") auto
  from loop_body_values[OF cb len sv] pre show ?case
    by (simp add: sir_loop_append)
qed


section \<open>Arithmetic of one iteration\<close>

lemma step_values_total_ge:
  fixes s i r N cb gamma dt :: real
  assumes "s + i + r = N"
  shows "N \<le> max 0 (s + (- cb * s * i / N) * dt) + max 0 (i + ((cb * s * i / N) - gamma * i) * dt)
           + min N (r + (gamma * i) * dt)"
proof -
  define a where "a = cb * s * i / N * dt"
  define g where "g = gamma * i * dt"
  have e1: "s + (- cb * s * i / N) * dt = s - a" unfolding a_def by simp
  have e2: "i + ((cb * s * i / N) - gamma * i) * dt = i + a - g"
    unfolding a_def g_def by (simp add: algebra_simps)
  have e3: "r + (gamma * i) * dt = r + g" unfolding g_def by simp
  have "N \<le> max 0 (s - a) + max 0 (i + a - g) + min N (r + g)"
    using assms by (cases "r + g \<le> N") (auto simp: max_def min_def)
  then show ?thesis by (simp only: e1 e2 e3)
qed

lemma step_values_sum:
  assumes "0 < N" "s + i + r = N" "step_values N gamma dt cb (s, i, r) = (s', i', r')"
  shows "s' + i' + r' = N"
proof -
  define s1 where "s1 = max 0 (s + (- cb * s * i / N) * dt)"
  define i1 where "i1 = max 0 (i + ((cb * s * i / N) - gamma * i) * dt)"
  define r1 where "r1 = min N (r + (gamma * i) * dt)"
  have ge: "N \<le> s1 + i1 + r1"
    unfolding s1_def i1_def r1_def by (rule step_values_total_ge[OF assms(2)])
  have sv: "(s', i', r') = (if s1 + i1 + r1 \<noteq> N \<and> s1 + i1 + r1 > 0
           then (s1 * (N / (s1 + i1 + r1)), i1 * (N / (s1 + i1 + r1)), r1 * (N / (s1 + i1 + r1)))
           else (s1, i1, r1))"
    unfolding assms(3)[symmetric] by (simp only: step_values_def Let_def prod.case s1_def i1_def r1_def)
  show ?thesis
  proof (cases "s1 + i1 + r1 = N")
    case True
    with sv show ?thesis by simp
  next
    case False
    with ge assms(1) have pos: "0 < s1 + i1 + r1" by simp
    with False sv have "s' = s1 * (N / (s1 + i1 + r1))" "i' = i1 * (N / (s1 + i1 + r1))"
      "r' = r1 * (N / (s1 + i1 + r1))" by simp_all
    then have "s' + i' + r' = (s1 + i1 + r1) * (N / (s1 + i1 + r1))"
      by (simp only: distrib_right)
    also have "\<dots> = N" using pos by simp
    finally show ?thesis .
  qed
qed



section \<open>The whole run\<close>

lemma np_linspace_axis:
  assumes "0 < n" "np_linspace 0 T (n + 1) = Inr t"
  shows "length t = nat n + 1" "t ! nat n = T"
    "\<And>i. i < nat n \<Longrightarrow> t ! i = real i * (T / real_of_int n)"
proof -
  define m where "m = nat n"
  have m: "0 < m" "nat (n + 1) = Suc m" "real_of_int n = real m"
    using assms(1) by (simp_all add: m_def nat_add_distrib)
  have t: "t = (map (\<lambda>k. real k * (T / real m) + 0) [0..<Suc m])[m := T]"
    using assms m by (simp add: np_linspace_def Let_def del: upt_Suc)
  show "length t = nat n + 1" using t by (simp add: m_def)
  show "t ! nat n = T" using t by (simp add: m_def[symmetric] del: upt_Suc)
  show "t ! i = real i * (T / real_of_int n)" if "i < nat n" for i
    using that t m by (simp add: m_def[symmetric] nth_append del: upt_Suc)
qed

lemma current_beta_in_range:
  assumes "i < length t" "d = None \<or> b \<noteq> None"
  shows "\<exists>cb. current_beta beta d b t i = Inr (Some cb)"
  using assms by (auto simp: current_beta_def split: option.splits)

lemma run_sir_model_Inr:
  assumes "run_sir_model N I0 R0_param beta gamma total_time time_steps d b = Inr (t, S, I, R)"
  shows "0 < time_steps"
    and "np_linspace 0 total_time (time_steps + 1) = Inr t"
    and "length S = nat time_steps + 1" "length I = nat time_steps + 1"
      "length R = nat time_steps + 1"
    and "S ! 0 = N - I0 - R0_param" "I ! 0 = I0" "R ! 0 = R0_param"
    and "\<And>i. i < nat time_steps \<Longrightarrow>
          \<exists>cb. current_beta beta d b t i = Inr (Some cb) \<and>
            (S ! Suc i, I ! Suc i, R ! Suc i) =
              step_values N gamma (total_time / real_of_int time_steps) cb (S ! i, I ! i, R ! i)"
proof -
  from assms have nz: "time_steps \<noteq> 0"
    by (auto simp: run_sir_model_def py_truediv_def split: if_splits)
  from assms nz have ge: "0 \<le> time_steps + 1"
    by (auto simp: run_sir_model_def py_truediv_def np_linspace_def Let_def split: if_splits)
  from assms nz ge have "0 < nat (time_steps + 1)"
    by (auto simp: run_sir_model_def py_truediv_def np_linspace_def np_zeros_def np_setitem_def
        Let_def split: if_splits sum.splits)
  with nz show pos: "0 < time_steps" by simp
  then have len: "nat (time_steps + 1) = nat time_steps + 1" by (simp add: nat_add_distrib)
  from assms pos show lin: "np_linspace 0 total_time (time_steps + 1) = Inr t"
    by (auto simp: run_sir_model_def py_truediv_def split: if_splits sum.splits)
  from assms pos lin have loop:
    "sir_loop N beta gamma (total_time / real_of_int time_steps) d b t [0..<nat time_steps]
       ((replicate (nat (time_steps + 1)) 0)[0 := N - I0 - R0_param],
        (replicate (nat (time_steps + 1)) 0)[0 := I0],
        (replicate (nat (time_steps + 1)) 0)[0 := R0_param]) = Inr (S, I, R)"
    by (auto simp: run_sir_model_def py_truediv_def np_zeros_def np_setitem_def py_range_def
        split: if_splits sum.splits)
  note inv = sir_loop_upt[OF loop]
  from inv len show "length S = nat time_steps + 1" "length I = nat time_steps + 1"
      "length R = nat time_steps + 1" by simp_all
  from inv len show "S ! 0 = N - I0 - R0_param" "I ! 0 = I0" "R ! 0 = R0_param" by simp_all
  show "\<exists>cb. current_beta beta d b t i = Inr (Some cb) \<and>
            (S ! Suc i, I ! Suc i, R ! Suc i) =
              step_values N gamma (total_time / real_of_int time_steps) cb (S ! i, I ! i, R ! i)"
    if "i < nat time_steps" for i
    using inv that by blast
qed

lemma run_sir_model_loop:
  assumes "0 < time_steps"
  shows "\<exists>t. np_linspace 0 total_time (time_steps + 1) = Inr t \<and>
    run_sir_model N I0 R0_param beta gamma total_time time_steps d b =
     (case sir_loop N beta gamma (total_time / real_of_int time_steps) d b t [0..<nat time_steps]
       ((replicate (nat time_steps + 1) 0)[0 := N - I0 - R0_param],
        (replicate (nat time_steps + 1) 0)[0 := I0],
        (replicate (nat time_steps + 1) 0)[0 := R0_param]) of
        Inl e \<Rightarrow> Inl e | Inr (S, I, R) \<Rightarrow> Inr (t, S, I, R))"
proof -
  from assms have len: "nat (time_steps + 1) = Suc (nat time_steps)" by (simp add: nat_add_distrib)
  obtain t where t: "np_linspace 0 total_time (time_steps + 1) = Inr t"
    using assms by (simp add: np_linspace_def Let_def)
  show ?thesis
    using assms t len
    by (simp add: run_sir_model_def py_truediv_def np_zeros_def np_setitem_def py_range_def)
qed

lemma run_sir_model_returns:
  assumes "0 < time_steps" "d = None \<or> b \<noteq> None"
  shows "\<exists>t S I R. run_sir_model N I0 R0_param beta gamma total_time time_steps d b =
           Inr (t, S, I, R)"
proof -
  from run_sir_model_loop[OF assms(1)] obtain t where
    t: "np_linspace 0 total_time (time_steps + 1) = Inr t" and
    run: "run_sir_model N I0 R0_param beta gamma total_time time_steps d b =
     (case sir_loop N beta gamma (total_time / real_of_int time_steps) d b t [0..<nat time_steps]
       ((replicate (nat time_steps + 1) 0)[0 := N - I0 - R0_param],
        (replicate (nat time_steps + 1) 0)[0 := I0],
        (replicate (nat time_steps + 1) 0)[0 := R0_param]) of
        Inl e \<Rightarrow> Inl e | Inr (S, I, R) \<Rightarrow> Inr (t, S, I, R))"
    by blast
  have "length t = nat time_steps + 1" using np_linspace_axis(1)[OF assms(1) t] .
  then have rates: "\<forall>i<nat time_steps. \<exists>cb. current_beta beta d b t i = Inr (Some cb)"
    using current_beta_in_range[OF _ assms(2)] by simp
  from sir_loop_returns[OF rates, of "(replicate (nat time_steps + 1) 0)[0 := N - I0 - R0_param]"
      "(replicate (nat time_steps + 1) 0)[0 := I0]" "(replicate (nat time_steps + 1) 0)[0 := R0_param]"
      N gamma "total_time / real_of_int time_steps"]
  obtain S I R where "sir_loop N beta gamma (total_time / real_of_int time_steps) d b t [0..<nat time_steps]
       ((replicate (nat time_steps + 1) 0)[0 := N - I0 - R0_param],
        (replicate (nat time_steps + 1) 0)[0 := I0],
        (replicate (nat time_steps + 1) 0)[0 := R0_param]) = Inr (S, I, R)"
    by auto
  with run show ?thesis by simp
qed

section \<open>Invariants along the trajectory\<close>

lemma run_conserved:
  assumes "0 < N"
    and "run_sir_model N I0 R0_param beta gamma total_time time_steps d b = Inr (t, S, I, R)"
    and "i \<le> nat time_steps"
  shows "S ! i + I ! i + R ! i = N"
  using assms(3)
proof (induction i)
  case 0
  show ?case using run_sir_model_Inr(6,7,8)[OF assms(2)] by simp
next
  case (Suc i)
  then have i: "i < nat time_steps" and IH: "S ! i + I ! i + R ! i = N" by simp_all
  from run_sir_model_Inr(9)[OF assms(2) i] obtain cb where
    "step_values N gamma (total_time / real_of_int time_steps) cb (S ! i, I ! i, R ! i) =
       (S ! Suc i, I ! Suc i, R ! Suc i)" by auto
  from step_values_sum[OF assms(1) IH this] show ?case .
qed




section \<open>The claims\<close>

text \<open>
  Claim C1 (conservation). For a configuration with \<open>N > 0\<close>, \<open>0 \<le> I0\<close>, \<open>0 \<le> R0_param\<close>,
  \<open>I0 + R0_param \<le> N\<close> and a positive number of steps (and, when an intervention day is
  given, its rate too), \<^verbatim>\<open>run_sir_model\<close> returns, and at every index \<open>i\<close> from 0 to
  \<^verbatim>\<open>time_steps\<close> the three compartments sum to \<open>N\<close>: exactly, in real arithmetic.
\<close>
theorem run_sir_model_conservation:
  assumes "0 < N" "0 \<le> I0" "0 \<le> R0_param" "I0 + R0_param \<le> N" "0 < time_steps"
    and "intervencao_dia = None \<or> beta_pos_intervencao \<noteq> None"
    and "i \<le> nat time_steps"
  shows "\<exists>t S I R.
           run_sir_model N I0 R0_param beta gamma total_time time_steps intervencao_dia
             beta_pos_intervencao = Inr (t, S, I, R) \<and>
           S ! i + I ! i + R ! i = N"
proof -
  from run_sir_model_returns[OF assms(5,6)] obtain t S I R where
    run: "run_sir_model N I0 R0_param beta gamma total_time time_steps intervencao_dia
            beta_pos_intervencao = Inr (t, S, I, R)"
    by blast
  from run_conserved[OF assms(1) run assms(7)] run show ?thesis by blast
qed

theorem run_sir_model_conservation_witness:
  "\<exists>t S I R.
     run_sir_model 100 1 0 (1/2) (1/10) 4 4 (Some 2) (Some (3/20)) = Inr (t, S, I, R) \<and>
     S ! 3 + I ! 3 + R ! 3 = 100"
  using run_sir_model_conservation[of 100 1 0 4 "Some 2" "Some (3/20)" 3 "1/2" "1/10" 4] by simp

text \<open>
  Claim C2 (intervention switch). With an intervention day \<open>T\<close> and a rate \<open>beta_pos\<close>
  configured, at every step \<open>i\<close> of the run the rate selected by lines 102 to 104 is \<open>beta\<close>
  when the step's start time \<open>t ! i\<close> is below \<open>T\<close> and \<open>beta_pos\<close> when \<open>t ! i \<ge> T\<close>, and
  the values at index \<open>i + 1\<close> are the ones the iteration computes with that rate; so the
  switch never applies to a step that starts before \<open>T\<close>.
\<close>
theorem run_sir_model_intervention_switch:
  assumes "0 < N" "0 < time_steps" "i < nat time_steps"
  shows "\<exists>t S I R.
           run_sir_model N I0 R0_param beta gamma total_time time_steps (Some T) (Some beta_pos)
             = Inr (t, S, I, R) \<and>
           current_beta beta (Some T) (Some beta_pos) t i =
             Inr (Some (if t ! i < T then beta else beta_pos)) \<and>
           (S ! Suc i, I ! Suc i, R ! Suc i) =
             step_values N gamma (total_time / real_of_int time_steps)
               (if t ! i < T then beta else beta_pos) (S ! i, I ! i, R ! i)"
proof -
  have "\<exists>t S I R. run_sir_model N I0 R0_param beta gamma total_time time_steps (Some T)
            (Some beta_pos) = Inr (t, S, I, R)"
    by (rule run_sir_model_returns[OF assms(2)]) simp
  then obtain t S I R where
    run: "run_sir_model N I0 R0_param beta gamma total_time time_steps (Some T) (Some beta_pos)
            = Inr (t, S, I, R)"
    by blast
  have "length t = nat time_steps + 1"
    using np_linspace_axis(1)[OF assms(2) run_sir_model_Inr(2)[OF run]] .
  with assms(3) have cb: "current_beta beta (Some T) (Some beta_pos) t i =
      Inr (Some (if t ! i < T then beta else beta_pos))"
    by (simp add: current_beta_def not_less)
  from run_sir_model_Inr(9)[OF run assms(3)] cb
  have "(S ! Suc i, I ! Suc i, R ! Suc i) =
          step_values N gamma (total_time / real_of_int time_steps)
            (if t ! i < T then beta else beta_pos) (S ! i, I ! i, R ! i)"
    by auto
  with run cb show ?thesis by blast
qed

theorem run_sir_model_intervention_switch_witness:
  "\<exists>t S I R.
     run_sir_model 100 1 0 (1/2) (1/10) 4 4 (Some 2) (Some (3/20)) = Inr (t, S, I, R) \<and>
     current_beta (1/2) (Some 2) (Some (3/20)) t 2 =
       Inr (Some (if t ! 2 < 2 then 1/2 else 3/20)) \<and>
     (S ! Suc 2, I ! Suc 2, R ! Suc 2) =
       step_values 100 (1/10) (4 / real_of_int 4) (if t ! 2 < 2 then 1/2 else 3/20)
         (S ! 2, I ! 2, R ! 2)"
  using run_sir_model_intervention_switch[of 100 4 2 1 0 "1/2" "1/10" 4 2 "3/20"] by simp

text \<open>
  Claim C3 (Euler update, then clamps). At every step \<open>i < time_steps\<close> the run computes
  \<open>dS = - beta_eff * S[i] * I[i] / N\<close>, \<open>dI = beta_eff * S[i] * I[i] / N - gamma * I[i]\<close> and
  \<open>dR = gamma * I[i]\<close> with the step's rate \<open>beta_eff\<close>, advances each compartment by its
  derivative times \<open>dt = total_time / time_steps\<close>, and then clamps each compartment on its
  own: \<open>max 0\<close> for \<open>S\<close> and \<open>I\<close>, \<open>min N\<close> for \<open>R\<close>. What is stored at index \<open>i + 1\<close> is the
  clamped value times the factor of the normalisation that follows (1 when it is skipped).
\<close>
theorem run_sir_model_euler_clamp:
  assumes "0 < N" "0 < time_steps"
    and "intervencao_dia = None \<or> beta_pos_intervencao \<noteq> None"
    and "i < nat time_steps"
  shows "\<exists>t S I R beta_eff.
           run_sir_model N I0 R0_param beta gamma total_time time_steps intervencao_dia
             beta_pos_intervencao = Inr (t, S, I, R) \<and>
           current_beta beta intervencao_dia beta_pos_intervencao t i = Inr (Some beta_eff) \<and>
           (let dt = total_time / real_of_int time_steps;
                dS = - beta_eff * S ! i * I ! i / N;
                dI = beta_eff * S ! i * I ! i / N - gamma * I ! i;
                dR = gamma * I ! i;
                S1 = max 0 (S ! i + dS * dt);
                I1 = max 0 (I ! i + dI * dt);
                R1 = min N (R ! i + dR * dt);
                total = S1 + I1 + R1;
                fator = (if total \<noteq> N \<and> total > 0 then N / total else 1)
            in S ! Suc i = S1 * fator \<and> I ! Suc i = I1 * fator \<and> R ! Suc i = R1 * fator)"
proof -
  from run_sir_model_returns[OF assms(2,3)] obtain t S I R where
    run: "run_sir_model N I0 R0_param beta gamma total_time time_steps intervencao_dia
            beta_pos_intervencao = Inr (t, S, I, R)"
    by blast
  from run_sir_model_Inr(9)[OF run assms(4)] obtain cb where
    cb: "current_beta beta intervencao_dia beta_pos_intervencao t i = Inr (Some cb)" and
    sv: "(S ! Suc i, I ! Suc i, R ! Suc i) =
           step_values N gamma (total_time / real_of_int time_steps) cb (S ! i, I ! i, R ! i)"
    by blast
  define dt where "dt = total_time / real_of_int time_steps"
  define S1 where "S1 = max 0 (S ! i + (- cb * S ! i * I ! i / N) * dt)"
  define I1 where "I1 = max 0 (I ! i + (cb * S ! i * I ! i / N - gamma * I ! i) * dt)"
  define R1 where "R1 = min N (R ! i + (gamma * I ! i) * dt)"
  define fator where "fator = (if S1 + I1 + R1 \<noteq> N \<and> S1 + I1 + R1 > 0
                               then N / (S1 + I1 + R1) else 1)"
  have "(S ! Suc i, I ! Suc i, R ! Suc i) =
          (if S1 + I1 + R1 \<noteq> N \<and> S1 + I1 + R1 > 0
           then (S1 * (N / (S1 + I1 + R1)), I1 * (N / (S1 + I1 + R1)), R1 * (N / (S1 + I1 + R1)))
           else (S1, I1, R1))"
    unfolding sv by (simp only: step_values_def Let_def prod.case S1_def I1_def R1_def dt_def)
  then have res: "S ! Suc i = S1 * fator \<and> I ! Suc i = I1 * fator \<and> R ! Suc i = R1 * fator"
    by (cases "S1 + I1 + R1 \<noteq> N \<and> S1 + I1 + R1 > 0") (auto simp: fator_def)
  have "(let dt = total_time / real_of_int time_steps;
                dS = - cb * S ! i * I ! i / N;
                dI = cb * S ! i * I ! i / N - gamma * I ! i;
                dR = gamma * I ! i;
                S1 = max 0 (S ! i + dS * dt);
                I1 = max 0 (I ! i + dI * dt);
                R1 = min N (R ! i + dR * dt);
                total = S1 + I1 + R1;
                fator = (if total \<noteq> N \<and> total > 0 then N / total else 1)
            in S ! Suc i = S1 * fator \<and> I ! Suc i = I1 * fator \<and> R ! Suc i = R1 * fator)"
    unfolding Let_def using res[unfolded fator_def S1_def I1_def R1_def dt_def] .
  with run cb show ?thesis by blast
qed

theorem run_sir_model_euler_clamp_witness:
  "\<exists>t S I R beta_eff.
     run_sir_model 100 1 0 (1/2) (1/10) 4 4 None None = Inr (t, S, I, R) \<and>
     current_beta (1/2) None None t 0 = Inr (Some beta_eff) \<and>
     (let dt = 4 / real_of_int 4;
          dS = - beta_eff * S ! 0 * I ! 0 / 100;
          dI = beta_eff * S ! 0 * I ! 0 / 100 - (1/10) * I ! 0;
          dR = (1/10) * I ! 0;
          S1 = max 0 (S ! 0 + dS * dt);
          I1 = max 0 (I ! 0 + dI * dt);
          R1 = min 100 (R ! 0 + dR * dt);
          total = S1 + I1 + R1;
          fator = (if total \<noteq> 100 \<and> total > 0 then 100 / total else 1)
      in S ! Suc 0 = S1 * fator \<and> I ! Suc 0 = I1 * fator \<and> R ! Suc 0 = R1 * fator)"
  using run_sir_model_euler_clamp[of 100 4 None None 0 1 0 "1/2" "1/10" 4] by simp







text \<open>
  Claim C10 (the rate is not read without an intervention day). When \<^verbatim>\<open>intervencao_dia\<close> is
  \<^verbatim>\<open>None\<close>, the result of \<^verbatim>\<open>run_sir_model\<close>, a returned tuple or a raised exception, is
  the same for any two values of \<^verbatim>\<open>beta_pos_intervencao\<close>, \<^verbatim>\<open>None\<close> included.
\<close>
theorem run_sir_model_ignores_rate_without_intervention:
  "run_sir_model N I0 R0_param beta gamma total_time time_steps None beta_pos_intervencao =
   run_sir_model N I0 R0_param beta gamma total_time time_steps None beta_pos_intervencao'"
proof -
  have body: "loop_body N beta gamma dt None b t i st = loop_body N beta gamma dt None b' t i st"
    for dt b b' t i st
    by (simp add: loop_body_def current_beta_def)
  have loop: "sir_loop N beta gamma dt None beta_pos_intervencao t xs st =
      sir_loop N beta gamma dt None beta_pos_intervencao' t xs st" for dt t xs st
    by (induction xs arbitrary: st)
      (simp_all add: body[of _ beta_pos_intervencao _ _ _ beta_pos_intervencao'] split: sum.splits)
  show ?thesis by (simp add: run_sir_model_def loop cong: sum.case_cong)
qed








end
